theory Spec2Isabelle
  imports Complex_Main "HOL-Library.Multiset" "HOL-Library.Log_Nat"
begin

section \<open>Time entries and the local-storage store\<close>

text \<open>
  Timestamps are milliseconds since the epoch (\<open>Date.getTime()\<close>). The store keeps them as
  ISO strings produced by \<open>toISOString()\<close>; \<open>new Date(iso).getTime()\<close> reads the same
  millisecond back, so the model keeps the millisecond count itself.

  The record has the fields of \<open>TimeEntry\<close> that the storage manager and the report
  generator read or write. \<open>isRunning\<close> is optional in the source (\<open>isRunning?: boolean\<close>):
  \<open>None\<close> is the absent field, which JavaScript treats as falsy.
\<close>

record TimeEntry =
  entryId :: string
  projectId :: string
  taskId :: "string option"
  startTime :: int
  endTime :: "int option"
  duration :: int
  tags :: "string list"
  createdAt :: int
  updatedAt :: int
  isRunning :: "bool option"

type_synonym store = "TimeEntry list"

text \<open>Truthiness of the optional flag, as in \<open>e => e.isRunning\<close> and \<open>!entry.isRunning\<close>.\<close>

definition running :: "TimeEntry \<Rightarrow> bool" where
  "running e = (isRunning e = Some True)"

subsection \<open>BaseStorageManager\<close>

text \<open>\<open>getAll\<close> parses the JSON array kept under the storage key and \<open>saveAll\<close> writes it
  back; the store is that array, in its order, and every operation takes it and returns it.
  A read or write that the browser refuses (the source logs it and goes on) is outside the
  model.\<close>

text \<open>\<open>Array.prototype.findIndex\<close>: the first index whose element satisfies the predicate;
  \<open>None\<close> stands for the source's \<open>-1\<close>.\<close>

fun findIndex :: "('a \<Rightarrow> bool) \<Rightarrow> 'a list \<Rightarrow> nat option" where
  "findIndex P [] = None"
| "findIndex P (x # xs) =
     (if P x then Some 0 else (case findIndex P xs of None \<Rightarrow> None | Some k \<Rightarrow> Some (Suc k)))"

definition getById :: "store \<Rightarrow> string \<Rightarrow> TimeEntry option" where
  "getById items i = find (\<lambda>item. entryId item = i) items"

definition create :: "store \<Rightarrow> TimeEntry \<Rightarrow> store \<times> TimeEntry" where
  "create items item = (items @ [item], item)"

text \<open>\<open>update\<close> takes the partial object as a function that overwrites the given fields
  (\<open>{ ...items[index], ...updates }\<close>).\<close>

definition update :: "store \<Rightarrow> string \<Rightarrow> (TimeEntry \<Rightarrow> TimeEntry) \<Rightarrow> store \<times> TimeEntry option" where
  "update items i updates =
     (case findIndex (\<lambda>item. entryId item = i) items of
        None \<Rightarrow> (items, None)
      | Some index \<Rightarrow>
          (let items' = items[index := updates (items ! index)]
           in (items', Some (items' ! index))))"

subsection \<open>TimeEntryStorageManager\<close>

definition getRunningEntry :: "store \<Rightarrow> TimeEntry option" where
  "getRunningEntry items = find running items"

definition getEntriesByDateRange :: "store \<Rightarrow> int \<Rightarrow> int \<Rightarrow> TimeEntry list" where
  "getEntriesByDateRange items startDate endDate =
     filter (\<lambda>e. startDate \<le> startTime e \<and> startTime e \<le> endDate) items"

text \<open>The object literal that \<open>stopTimer\<close> passes to \<open>update\<close>: the four fields it
  overwrites.\<close>

definition stopUpdates :: "int \<Rightarrow> int \<Rightarrow> int \<Rightarrow> TimeEntry \<Rightarrow> TimeEntry" where
  "stopUpdates tEnd dur tUpd x =
     x\<lparr>endTime := Some tEnd, duration := dur, isRunning := Some False, updatedAt := tUpd\<rparr>"

text \<open>\<open>stopTimer\<close> reads the clock twice: \<open>tEnd\<close> for \<open>endTime\<close> and \<open>tUpd\<close> for
  \<open>updatedAt\<close>. \<open>Math.floor(x / 1000)\<close> on integers is \<open>div\<close>, which rounds down.\<close>

definition stopTimer :: "store \<Rightarrow> string \<Rightarrow> int \<Rightarrow> int \<Rightarrow> store \<times> TimeEntry option" where
  "stopTimer items i tEnd tUpd =
     (case getById items i of
        None \<Rightarrow> (items, None)
      | Some entry \<Rightarrow>
          if \<not> running entry then (items, None)
          else update items i (stopUpdates tEnd ((tEnd - startTime entry) div 1000) tUpd))"

definition stopAllTimers :: "store \<Rightarrow> int \<Rightarrow> int \<Rightarrow> store" where
  "stopAllTimers items tEnd tUpd =
     (case getRunningEntry items of
        None \<Rightarrow> items
      | Some runningEntry \<Rightarrow> fst (stopTimer items (entryId runningEntry) tEnd tUpd))"

text \<open>\<open>startTimer\<close>: the identifier comes from \<open>generateId()\<close> (clock and random characters) and is
  a parameter here, as are the clock readings: \<open>tEnd\<close>, \<open>tUpd\<close> for the implicit stop, then
  \<open>tStart\<close>, \<open>tCreated\<close>, \<open>tUpdated\<close> for the three fields of the new entry.\<close>

definition startTimer ::
  "store \<Rightarrow> int \<Rightarrow> int \<Rightarrow> string \<Rightarrow> string \<Rightarrow> string option \<Rightarrow> string list \<Rightarrow> int \<Rightarrow> int \<Rightarrow> int
     \<Rightarrow> store \<times> TimeEntry" where
  "startTimer items tEnd tUpd newId pid tid tgs tStart tCreated tUpdated =
     (let items' = stopAllTimers items tEnd tUpd;
          entry = \<lparr> entryId = newId, projectId = pid, taskId = tid, startTime = tStart,
                    endTime = None, duration = 0, tags = tgs, createdAt = tCreated,
                    updatedAt = tUpdated, isRunning = Some True \<rparr>
      in create items' entry)"

subsection \<open>Sequences of timer calls\<close>

definition countRunning :: "store \<Rightarrow> nat" where
  "countRunning items = length (filter running items)"

text \<open>A call of the storage manager together with what it reads from its environment: the
  clock readings and, for \<open>startTimer\<close>, the generated identifier.\<close>

datatype call =
    StartTimer int int string string "string option" "string list" int int int
  | StopTimer string int int

fun applyCall :: "store \<Rightarrow> call \<Rightarrow> store" where
  "applyCall items (StartTimer tEnd tUpd newId pid tid tgs tStart tCreated tUpdated) =
     fst (startTimer items tEnd tUpd newId pid tid tgs tStart tCreated tUpdated)"
| "applyCall items (StopTimer i tEnd tUpd) = fst (stopTimer items i tEnd tUpd)"

text \<open>The stores observed after each call of a sequence.\<close>

fun observe :: "store \<Rightarrow> call list \<Rightarrow> store list" where
  "observe items [] = []"
| "observe items (c # cs) = applyCall items c # observe (applyCall items c) cs"

text \<open>\<open>generateId()\<close> joins the clock with nine random characters; \<open>freshIds\<close> says that
  every identifier it returns along the sequence is new to the store at the time of the call.\<close>

fun freshIds :: "store \<Rightarrow> call list \<Rightarrow> bool" where
  "freshIds items [] = True"
| "freshIds items (StartTimer tEnd tUpd newId pid tid tgs tStart tCreated tUpdated # cs) =
     (newId \<notin> set (map entryId items) \<and>
      freshIds (applyCall items (StartTimer tEnd tUpd newId pid tid tgs tStart tCreated tUpdated)) cs)"
| "freshIds items (StopTimer i tEnd tUpd # cs) = freshIds (applyCall items (StopTimer i tEnd tUpd)) cs"

definition wellFormed :: "store \<Rightarrow> bool" where
  "wellFormed items = (distinct (map entryId items) \<and> countRunning items \<le> 1)"

section \<open>Report generation\<close>

subsection \<open>JavaScript numbers\<close>

text \<open>
  Durations are integer seconds. In the report the quotients are kept exact (rationals), so
  the rounding of IEEE doubles is outside that part of the model. What it does keep of
  JavaScript's division is its behaviour at a zero divisor: \<open>0 / 0\<close> is \<open>NaN\<close> and
  \<open>x / 0\<close> is \<open>\<plusminus>Infinity\<close>.
\<close>

datatype jsnum = Num rat | NaN | PosInfinity | NegInfinity

definition js_div :: "rat \<Rightarrow> rat \<Rightarrow> jsnum" where
  "js_div a b =
     (if b = 0 then (if a = 0 then NaN else if 0 < a then PosInfinity else NegInfinity)
      else Num (a / b))"

definition js_times :: "jsnum \<Rightarrow> rat \<Rightarrow> jsnum" where
  "js_times x c =
     (case x of
        Num a \<Rightarrow> Num (a * c)
      | NaN \<Rightarrow> NaN
      | PosInfinity \<Rightarrow> (if c = 0 then NaN else if 0 < c then PosInfinity else NegInfinity)
      | NegInfinity \<Rightarrow> (if c = 0 then NaN else if 0 < c then NegInfinity else PosInfinity))"

definition js_gt :: "jsnum \<Rightarrow> rat \<Rightarrow> bool" where
  "js_gt x c = (case x of Num a \<Rightarrow> c < a | NaN \<Rightarrow> False | PosInfinity \<Rightarrow> True | NegInfinity \<Rightarrow> False)"

definition js_lt :: "jsnum \<Rightarrow> rat \<Rightarrow> bool" where
  "js_lt x c = (case x of Num a \<Rightarrow> a < c | NaN \<Rightarrow> False | PosInfinity \<Rightarrow> False | NegInfinity \<Rightarrow> True)"

subsection \<open>Double precision\<close>







subsection \<open>Dates\<close>

text \<open>
  A \<open>Date\<close> is its millisecond count. The local-time methods depend on the time zone, taken
  as a fixed offset \<open>tz\<close> in milliseconds (local time = UTC + \<open>tz\<close>; daylight-saving changes
  are outside the model), and every instant is taken to lie in the range a \<open>Date\<close> can
  hold. A calendar date \<open>YYYY-MM-DD\<close> is its day number since 1970-01-01; for four-digit
  years the order of the strings is the order of the day numbers.
\<close>

definition msPerDay :: int where
  "msPerDay = 1000 * 60 * 60 * 24"

text \<open>\<open>d.toISOString().split('T')[0]\<close>: the UTC calendar date.\<close>

definition toISODate :: "int \<Rightarrow> int" where
  "toISODate t = t div msPerDay"

text \<open>\<open>new Date('YYYY-MM-DD').getTime()\<close>: a date-only string is read as UTC midnight.\<close>

definition parseISODate :: "int \<Rightarrow> int" where
  "parseISODate d = d * msPerDay"

text \<open>\<open>d.getDay()\<close>: the local weekday, 0 for Sunday; 1970-01-01 was a Thursday.\<close>

definition getDay :: "int \<Rightarrow> int \<Rightarrow> int" where
  "getDay tz t = ((t + tz) div msPerDay + 4) mod 7"

text \<open>\<open>d.setDate(d.getDate() + k)\<close>: the same local time of day, \<open>k\<close> days later.\<close>

definition addDays :: "int \<Rightarrow> int \<Rightarrow> int" where
  "addDays t k = t + k * msPerDay"

text \<open>\<open>d.setHours(h, m, s, ms)\<close>: the given time of day on the same local date.\<close>

definition setHours :: "int \<Rightarrow> int \<Rightarrow> int \<Rightarrow> int \<Rightarrow> int \<Rightarrow> int \<Rightarrow> int" where
  "setHours tz t h m s ms =
     ((t + tz) div msPerDay) * msPerDay + ((h * 60 + m) * 60 + s) * 1000 + ms - tz"





subsection \<open>Maps in insertion order\<close>

text \<open>A JavaScript \<open>Map\<close> lists its keys in the order of their first insertion; \<open>set\<close> on a
  present key replaces the value in place.\<close>

fun mapSet :: "('k \<times> 'v) list \<Rightarrow> 'k \<Rightarrow> 'v \<Rightarrow> ('k \<times> 'v) list" where
  "mapSet [] k v = [(k, v)]"
| "mapSet ((k', v') # m) k v = (if k' = k then (k, v) # m else (k', v') # mapSet m k v)"

text \<open>The step of every grouping loop: \<open>current = m.get(k) || 0; m.set(k, current + d)\<close>.\<close>

definition addTo :: "('k \<times> int) list \<Rightarrow> 'k \<Rightarrow> int \<Rightarrow> ('k \<times> int) list" where
  "addTo m k d = mapSet m k ((case map_of m k of None \<Rightarrow> 0 | Some current \<Rightarrow> current) + d)"

text \<open>The reading \<open>m.get(k) || 0\<close> of a grouping map.\<close>

definition lookup0 :: "('k \<times> int) list \<Rightarrow> 'k \<Rightarrow> int" where
  "lookup0 m k = (case map_of m k of None \<Rightarrow> 0 | Some c \<Rightarrow> c)"

subsection \<open>ReportGenerator.generateReport\<close>

record Project =
  project_id :: string
  project_name :: string

datatype period = Day | Week | Month

datatype trend = Up | Down | Stable

record ProjectShare =
  pb_projectId :: string
  pb_projectName :: string
  pb_hours :: rat
  pb_percentage :: jsnum

record TagShare =
  tb_tag :: string
  tb_hours :: rat
  tb_percentage :: jsnum

record DayShare =
  db_date :: int
  db_hours :: rat

text \<open>\<open>bestDay\<close> is a daily item or the initial \<open>{ date: '', hours: 0 }\<close>, whose empty date
  is \<open>None\<close> here.\<close>

record BestDay =
  bd_date :: "int option"
  bd_hours :: rat

record Prediction =
  nextWeekHours :: jsnum
  trend :: trend

record Report =
  period :: period
  startDate :: int
  endDate :: int
  totalHours :: rat
  projectBreakdown :: "ProjectShare list"
  tagBreakdown :: "TagShare list"
  dailyBreakdown :: "DayShare list"
  bestDay :: BestDay
  averageHoursPerDay :: jsnum
  prediction :: Prediction

definition totalSeconds :: "TimeEntry list \<Rightarrow> int" where
  "totalSeconds entries = foldl (\<lambda>sum e. sum + duration e) 0 entries"

definition projectMap :: "TimeEntry list \<Rightarrow> (string \<times> int) list" where
  "projectMap entries = foldl (\<lambda>m entry. addTo m (projectId entry) (duration entry)) [] entries"

definition tagMap :: "TimeEntry list \<Rightarrow> (string \<times> int) list" where
  "tagMap entries =
     foldl (\<lambda>m entry. foldl (\<lambda>m' tag. addTo m' tag (duration entry)) m (tags entry)) [] entries"

definition dailyMap :: "TimeEntry list \<Rightarrow> (int \<times> int) list" where
  "dailyMap entries =
     foldl (\<lambda>m entry. addTo m (toISODate (startTime entry)) (duration entry)) [] entries"

text \<open>\<open>project?.name || 'Unknown Project'\<close>: a missing project and an empty name both give the
  default.\<close>

definition projectNameOf :: "Project list \<Rightarrow> string \<Rightarrow> string" where
  "projectNameOf projects pid =
     (case find (\<lambda>p. project_id p = pid) projects of
        None \<Rightarrow> ''Unknown Project''
      | Some project \<Rightarrow> if project_name project = [] then ''Unknown Project'' else project_name project)"

definition generatePrediction :: "jsnum \<Rightarrow> Prediction" where
  "generatePrediction avg =
     \<lparr> nextWeekHours = js_times (js_times avg 7) (11 / 10),
       trend = (if js_gt avg 6 then Up else if js_lt avg 3 then Down else Stable) \<rparr>"

text \<open>\<open>Array.prototype.sort\<close> is stable, as is \<open>sort_key\<close>; the comparator
  \<open>(a, b) => b.hours - a.hours\<close> orders by descending hours, that is by ascending negated
  hours.\<close>

definition generateReport :: "store \<Rightarrow> Project list \<Rightarrow> period \<Rightarrow> int \<Rightarrow> int \<Rightarrow> Report" where
  "generateReport items projects per start end =
     (let entries = getEntriesByDateRange items start end;
          total = totalSeconds entries;
          totalH = of_int total / 3600;
          projectB = sort_key (\<lambda>x. - pb_hours x)
            (map (\<lambda>(pid, seconds).
                    \<lparr> pb_projectId = pid,
                      pb_projectName = projectNameOf projects pid,
                      pb_hours = of_int seconds / 3600,
                      pb_percentage = js_times (js_div (of_int seconds) (of_int total)) 100 \<rparr>)
                 (projectMap entries));
          tagB = sort_key (\<lambda>x. - tb_hours x)
            (map (\<lambda>(tag, seconds).
                    \<lparr> tb_tag = tag,
                      tb_hours = of_int seconds / 3600,
                      tb_percentage = js_times (js_div (of_int seconds) (of_int total)) 100 \<rparr>)
                 (tagMap entries));
          dailyB = sort_key db_date
            (map (\<lambda>(date, seconds). \<lparr> db_date = date, db_hours = of_int seconds / 3600 \<rparr>)
                 (dailyMap entries));
          best = foldl (\<lambda>best day. if bd_hours best < db_hours day
                                     then \<lparr> bd_date = Some (db_date day), bd_hours = db_hours day \<rparr>
                                     else best)
                   \<lparr> bd_date = None, bd_hours = 0 \<rparr> dailyB;
          daysDiff = \<lceil>(of_int (end - start) :: rat) / of_int msPerDay\<rceil>;
          average = js_div totalH (of_int daysDiff)
      in \<lparr> period = per, startDate = start, endDate = end, totalHours = totalH,
           projectBreakdown = projectB, tagBreakdown = tagB, dailyBreakdown = dailyB,
           bestDay = best, averageHoursPerDay = average,
           prediction = generatePrediction average \<rparr>)"

definition generateWeekReport :: "int \<Rightarrow> store \<Rightarrow> Project list \<Rightarrow> int \<Rightarrow> Report" where
  "generateWeekReport tz items projects date =
     (let dayOfWeek = getDay tz date;
          diff = (if dayOfWeek = 0 then 6 else dayOfWeek - 1);
          start = setHours tz (addDays date (- diff)) 0 0 0 0;
          end = setHours tz (addDays start 6) 23 59 59 999
      in generateReport items projects Week start end)"

subsection \<open>ReportGenerator.generateHeatmapData\<close>









subsection \<open>ReportGenerator.calculateStreak\<close>

text \<open>\<open>getAllEntries\<close> sorts by start time, newest first.\<close>

definition getAllEntries :: "store \<Rightarrow> TimeEntry list" where
  "getAllEntries items = sort_key (\<lambda>e. - startTime e) items"

text \<open>The first loop: \<open>checkDate\<close> is \<open>today\<close> moved back \<open>i\<close> days, and the loop leaves at
  the first date without activity.\<close>

function currentLoop :: "int list \<Rightarrow> int \<Rightarrow> nat \<Rightarrow> nat \<Rightarrow> nat" where
  "currentLoop sortedDates today i currentStreak =
     (if i < length sortedDates
      then (let dateStr = toISODate (addDays today (- int i))
            in if dateStr \<in> set sortedDates
               then currentLoop sortedDates today (i + 1) (currentStreak + 1)
               else currentStreak)
      else currentStreak)"
  by pat_completeness auto
termination
  by (relation "measure (\<lambda>(sortedDates, today, i, currentStreak). length sortedDates - i)") auto

declare currentLoop.simps [simp del]

text \<open>The second loop, over neighbouring dates of the descending list.\<close>

function longestLoop :: "int list \<Rightarrow> nat \<Rightarrow> nat \<Rightarrow> nat \<Rightarrow> nat" where
  "longestLoop sortedDates i longestStreak tempStreak =
     (if i < length sortedDates
      then (let prevDate = parseISODate (sortedDates ! (i - 1));
                currDate = parseISODate (sortedDates ! i);
                dayDiff = (prevDate - currDate) div msPerDay
            in if dayDiff = 1
               then longestLoop sortedDates (i + 1) (max longestStreak (tempStreak + 1)) (tempStreak + 1)
               else longestLoop sortedDates (i + 1) longestStreak 1)
      else longestStreak)"
  by pat_completeness auto
termination
  by (relation "measure (\<lambda>(sortedDates, i, longestStreak, tempStreak). length sortedDates - i)") auto

declare longestLoop.simps [simp del]

text \<open>\<open>now\<close> is the reading of \<open>new Date()\<close>. The set of dates is sorted and reversed, so the
  order in which the set was filled plays no part.\<close>

definition calculateStreak :: "int \<Rightarrow> store \<Rightarrow> int \<Rightarrow> nat \<times> nat" where
  "calculateStreak tz items now =
     (let allEntries = getAllEntries items
      in if allEntries = [] then (0, 0)
         else (let sortedDates = rev (sort (remdups (map (\<lambda>e. toISODate (startTime e)) allEntries)));
                   today = setHours tz now 0 0 0 0;
                   currentStreak = currentLoop sortedDates today 0 0;
                   longestStreak = longestLoop sortedDates 1 0 1
               in (currentStreak, max longestStreak currentStreak)))"

section \<open>Example data\<close>

definition demoStore :: store where
  "demoStore =
     [\<lparr> entryId = ''e1'', projectId = ''p1'', taskId = None, startTime = 1000,
        endTime = Some 61000, duration = 60, tags = [], createdAt = 1000,
        updatedAt = 61000, isRunning = Some False \<rparr>,
      \<lparr> entryId = ''e2'', projectId = ''p2'', taskId = None, startTime = 70000,
        endTime = None, duration = 0, tags = [''a''], createdAt = 70000,
        updatedAt = 70000, isRunning = Some True \<rparr>]"

definition demoCalls :: "call list" where
  "demoCalls =
     [StartTimer 80000 80000 ''e3'' ''p1'' None [] 80001 80001 80001,
      StopTimer ''e3'' 95500 95500,
      StopTimer ''e3'' 99000 99000,
      StartTimer 99500 99500 ''e4'' ''p2'' (Some ''t1'') [''a'', ''b''] 99500 99500 99501]"

text \<open>A store outside the invariant: two entries are running.\<close>

definition corruptedStore :: store where
  "corruptedStore =
     [\<lparr> entryId = ''e1'', projectId = ''p1'', taskId = None, startTime = 1000,
        endTime = None, duration = 0, tags = [], createdAt = 1000,
        updatedAt = 1000, isRunning = Some True \<rparr>,
      \<lparr> entryId = ''e2'', projectId = ''p2'', taskId = None, startTime = 70000,
        endTime = None, duration = 0, tags = [''a''], createdAt = 70000,
        updatedAt = 70000, isRunning = Some True \<rparr>]"

text \<open>An entry logged by hand: stopped, with its duration fixed at creation.\<close>

definition loggedEntry :: "string \<Rightarrow> string \<Rightarrow> int \<Rightarrow> int \<Rightarrow> string list \<Rightarrow> TimeEntry" where
  "loggedEntry i pid tStart d tgs =
     \<lparr> entryId = i, projectId = pid, taskId = None, startTime = tStart,
       endTime = Some (tStart + d * 1000), duration = d, tags = tgs, createdAt = tStart,
       updatedAt = tStart, isRunning = Some False \<rparr>"

text \<open>The store right after the first timer was started: one running entry of duration 0.\<close>

definition zeroStore :: store where
  "zeroStore = fst (startTimer [] 0 0 ''e1'' ''p1'' None [''a''] 5000 5000 5000)"

definition tagStore :: store where
  "tagStore = [loggedEntry ''e1'' ''p1'' 1000 3600 [''x'', ''y''],
               loggedEntry ''e2'' ''p2'' 9000 1800 [''x'']]"

text \<open>One entry that lists the same tag twice, as the comma-separated tag field of the
  timesheet form allows.\<close>

definition dupTagStore :: store where
  "dupTagStore = [loggedEntry ''e1'' ''p1'' 1000 3600 [''a'', ''a'']]"

text \<open>Entries at 09:00 UTC on 1, 2 and 3 January 2024 (day numbers 19723 to 19725).\<close>

definition jan1 :: TimeEntry where "jan1 = loggedEntry ''e1'' ''p1'' 1704099600000 600 []"
definition jan2 :: TimeEntry where "jan2 = loggedEntry ''e2'' ''p1'' 1704186000000 600 []"
definition jan3 :: TimeEntry where "jan3 = loggedEntry ''e3'' ''p1'' 1704272400000 600 []"




section \<open>The timer: lemmas\<close>

lemma findIndex_SomeD:
  "findIndex P xs = Some k \<Longrightarrow> k < length xs \<and> P (xs ! k) \<and> (\<forall>j<k. \<not> P (xs ! j))"
proof (induction xs arbitrary: k)
  case Nil
  then show ?case by simp
next
  case (Cons x xs)
  show ?case
  proof (cases "P x")
    case True
    with Cons.prems show ?thesis by simp
  next
    case False
    with Cons.prems obtain k' where k': "findIndex P xs = Some k'" "k = Suc k'"
      by (auto split: option.splits)
    from Cons.IH[OF k'(1)] False k'(2) show ?thesis
      by (auto simp: nth_Cons split: nat.splits)
  qed
qed

lemma findIndex_find:
  "find P xs = (case findIndex P xs of None \<Rightarrow> None | Some k \<Rightarrow> Some (xs ! k))"
  by (induction xs) (auto split: option.splits)

lemma findIndex_None_iff: "findIndex P xs = None \<longleftrightarrow> (\<forall>x\<in>set xs. \<not> P x)"
  by (induction xs) (auto split: option.splits)

lemma count_update:
  "k < length xs \<Longrightarrow>
   length (filter P (xs[k := y])) + (if P (xs ! k) then 1 else 0)
     = length (filter P xs) + (if P y then 1 else 0)"
proof (induction xs arbitrary: k)
  case Nil
  then show ?case by simp
next
  case (Cons x xs)
  then show ?case by (cases k) auto
qed

lemma distinct_ids_findIndex:
  assumes "distinct (map entryId items)" "k < length items"
  shows "findIndex (\<lambda>item. entryId item = entryId (items ! k)) items = Some k"
proof -
  have "\<exists>x\<in>set items. entryId x = entryId (items ! k)"
    using assms(2) by auto
  then obtain j where j: "findIndex (\<lambda>item. entryId item = entryId (items ! k)) items = Some j"
    using findIndex_None_iff[of "\<lambda>item. entryId item = entryId (items ! k)" items] by fastforce
  from findIndex_SomeD[OF j] have "j < length items" "entryId (items ! j) = entryId (items ! k)"
    by auto
  with assms have "j = k"
    by (metis distinct_conv_nth length_map nth_map)
  with j show ?thesis by simp
qed

lemma running_stopUpdates [simp]: "\<not> running (stopUpdates tEnd d tUpd x)"
  by (simp add: running_def stopUpdates_def)

lemma entryId_stopUpdates [simp]: "entryId (stopUpdates tEnd d tUpd x) = entryId x"
  by (simp add: stopUpdates_def)

text \<open>One equation for \<open>stopTimer\<close>, by the position of the first entry with the identifier.\<close>

lemma stopTimer_eq:
  "stopTimer items i tEnd tUpd =
     (case findIndex (\<lambda>item. entryId item = i) items of
        None \<Rightarrow> (items, None)
      | Some k \<Rightarrow>
          if running (items ! k)
          then (items[k := stopUpdates tEnd ((tEnd - startTime (items ! k)) div 1000) tUpd (items ! k)],
                Some (stopUpdates tEnd ((tEnd - startTime (items ! k)) div 1000) tUpd (items ! k)))
          else (items, None))"
proof (cases "findIndex (\<lambda>item. entryId item = i) items")
  case None
  then show ?thesis by (simp add: stopTimer_def getById_def findIndex_find)
next
  case (Some k)
  from findIndex_SomeD[OF Some] have "k < length items" by simp
  with Some show ?thesis
    by (simp add: stopTimer_def getById_def findIndex_find update_def Let_def)
qed

lemma stopTimer_ids: "map entryId (fst (stopTimer items i tEnd tUpd)) = map entryId items"
proof (cases "findIndex (\<lambda>item. entryId item = i) items")
  case None
  then show ?thesis by (simp add: stopTimer_eq)
next
  case (Some k)
  from findIndex_SomeD[OF Some] have "k < length items" by simp
  with Some show ?thesis
    by (simp add: stopTimer_eq map_update list_update_same_conv)
qed

lemma stopTimer_count:
  "countRunning (fst (stopTimer items i tEnd tUpd)) \<le> countRunning items \<and>
   countRunning items \<le> Suc (countRunning (fst (stopTimer items i tEnd tUpd)))"
proof (cases "findIndex (\<lambda>item. entryId item = i) items")
  case None
  then show ?thesis by (simp add: stopTimer_eq)
next
  case (Some k)
  from findIndex_SomeD[OF Some] have kl: "k < length items" by simp
  from count_update[OF kl, of running
      "stopUpdates tEnd ((tEnd - startTime (items ! k)) div 1000) tUpd (items ! k)"]
  show ?thesis using Some
    by (simp add: stopTimer_eq countRunning_def split: if_splits)
qed

text \<open>With pairwise distinct identifiers, \<open>stopAllTimers\<close> stops the first running entry.\<close>

lemma stopAllTimers_eq:
  assumes "distinct (map entryId items)"
  shows "stopAllTimers items tEnd tUpd =
     (case findIndex running items of
        None \<Rightarrow> items
      | Some k \<Rightarrow> items[k := stopUpdates tEnd ((tEnd - startTime (items ! k)) div 1000) tUpd (items ! k)])"
proof (cases "findIndex running items")
  case None
  then show ?thesis by (simp add: stopAllTimers_def getRunningEntry_def findIndex_find)
next
  case (Some k)
  from findIndex_SomeD[OF Some] have kl: "k < length items" and rk: "running (items ! k)"
    by simp_all
  from distinct_ids_findIndex[OF assms kl] rk Some show ?thesis
    by (simp add: stopAllTimers_def getRunningEntry_def findIndex_find stopTimer_eq)
qed

text \<open>Whatever the identifiers, \<open>stopAllTimers\<close> changes at most the first running entry.\<close>

lemma stopAllTimers_cases:
  assumes "findIndex running items = Some k"
  shows "stopAllTimers items tEnd tUpd = items \<or>
         stopAllTimers items tEnd tUpd
           = items[k := stopUpdates tEnd ((tEnd - startTime (items ! k)) div 1000) tUpd (items ! k)]"
proof -
  from findIndex_SomeD[OF assms] have kl: "k < length items" and rk: "running (items ! k)"
    and first: "\<forall>j<k. \<not> running (items ! j)" by simp_all
  have r: "getRunningEntry items = Some (items ! k)"
    using assms by (simp add: getRunningEntry_def findIndex_find)
  have "\<exists>x\<in>set items. entryId x = entryId (items ! k)" using kl by auto
  then obtain j where j: "findIndex (\<lambda>item. entryId item = entryId (items ! k)) items = Some j"
    using findIndex_None_iff[of "\<lambda>item. entryId item = entryId (items ! k)" items] by fastforce
  from findIndex_SomeD[OF j] have jl: "j < length items"
    and jfirst: "\<forall>m<j. entryId (items ! m) \<noteq> entryId (items ! k)" by simp_all
  from jfirst have "\<not> k < j" by auto
  then consider "j = k" | "j < k" by linarith
  then show ?thesis
  proof cases
    case 1
    with j rk r show ?thesis by (simp add: stopAllTimers_def stopTimer_eq)
  next
    case 2
    with first have "\<not> running (items ! j)" by simp
    with j r show ?thesis by (simp add: stopAllTimers_def stopTimer_eq)
  qed
qed

lemma stopAllTimers_ids: "map entryId (stopAllTimers items tEnd tUpd) = map entryId items"
  by (simp add: stopAllTimers_def stopTimer_ids split: option.splits)

lemma stopAllTimers_count_le:
  "countRunning (stopAllTimers items tEnd tUpd) \<le> countRunning items \<and>
   countRunning items \<le> Suc (countRunning (stopAllTimers items tEnd tUpd))"
  using stopTimer_count by (simp add: stopAllTimers_def split: option.splits)

lemma stopAllTimers_count:
  assumes "distinct (map entryId items)"
  shows "countRunning (stopAllTimers items tEnd tUpd) = countRunning items - 1"
proof (cases "findIndex running items")
  case None
  then have "\<forall>x\<in>set items. \<not> running x" by (simp add: findIndex_None_iff)
  then have "filter running items = []" by (simp add: filter_empty_conv)
  with None show ?thesis by (simp add: stopAllTimers_eq[OF assms] countRunning_def)
next
  case (Some k)
  from findIndex_SomeD[OF Some] have kl: "k < length items" and rk: "running (items ! k)"
    by simp_all
  from count_update[OF kl, of running
      "stopUpdates tEnd ((tEnd - startTime (items ! k)) div 1000) tUpd (items ! k)"] rk Some
  show ?thesis by (simp add: stopAllTimers_eq[OF assms] countRunning_def)
qed

lemma startTimer_store:
  "fst (startTimer items tEnd tUpd newId pid tid tgs tStart tCreated tUpdated) =
     stopAllTimers items tEnd tUpd @ [snd (startTimer items tEnd tUpd newId pid tid tgs tStart tCreated tUpdated)]"
  by (simp add: startTimer_def create_def Let_def)

lemma startTimer_entry:
  "snd (startTimer items tEnd tUpd newId pid tid tgs tStart tCreated tUpdated) =
     \<lparr> entryId = newId, projectId = pid, taskId = tid, startTime = tStart,
       endTime = None, duration = 0, tags = tgs, createdAt = tCreated,
       updatedAt = tUpdated, isRunning = Some True \<rparr>"
  by (simp add: startTimer_def create_def Let_def)

lemma startTimer_count:
  "countRunning (fst (startTimer items tEnd tUpd newId pid tid tgs tStart tCreated tUpdated)) =
     Suc (countRunning (stopAllTimers items tEnd tUpd))"
  by (simp add: startTimer_store startTimer_entry countRunning_def running_def)

section \<open>The timer: claims\<close>

lemma applyCall_wellFormed:
  assumes "wellFormed items" "freshIds items (c # cs)"
  shows "wellFormed (applyCall items c) \<and> freshIds (applyCall items c) cs"
proof (cases c)
  case (StartTimer tEnd tUpd newId pid tid tgs tStart tCreated tUpdated)
  from assms(1) have d: "distinct (map entryId items)" and c1: "countRunning items \<le> 1"
    by (simp_all add: wellFormed_def)
  from assms(2) StartTimer have fr: "newId \<notin> set (map entryId items)"
    and rest: "freshIds (applyCall items c) cs" by simp_all
  have "distinct (map entryId (applyCall items c))"
    using d fr unfolding StartTimer
    by (simp add: startTimer_store startTimer_entry stopAllTimers_ids)
  moreover have "countRunning (applyCall items c) \<le> 1"
    using c1 unfolding StartTimer
    by (simp add: startTimer_count stopAllTimers_count[OF d])
  ultimately show ?thesis using rest by (simp add: wellFormed_def)
next
  case (StopTimer i tEnd tUpd)
  from assms(1) have d: "distinct (map entryId items)" and c1: "countRunning items \<le> 1"
    by (simp_all add: wellFormed_def)
  from stopTimer_count[of items i tEnd tUpd] c1
  have "countRunning (applyCall items c) \<le> 1" unfolding StopTimer by simp
  with d assms(2) show ?thesis unfolding StopTimer
    by (simp add: wellFormed_def stopTimer_ids)
qed

lemma observe_wellFormed:
  "wellFormed items \<Longrightarrow> freshIds items calls \<Longrightarrow> \<forall>s\<in>set (observe items calls). wellFormed s"
proof (induction calls arbitrary: items)
  case Nil
  then show ?case by simp
next
  case (Cons c cs)
  from applyCall_wellFormed[OF Cons.prems]
  have w: "wellFormed (applyCall items c)" and f: "freshIds (applyCall items c) cs" by simp_all
  from Cons.IH[OF w f] w show ?case by simp
qed

lemma applyCall_ids:
  "set (map entryId items) \<subseteq> set (map entryId (applyCall items c)) \<and>
   length items \<le> length (applyCall items c)"
proof (cases c)
  case (StartTimer tEnd tUpd newId pid tid tgs tStart tCreated tUpdated)
  have "map entryId (applyCall items c) = map entryId items @ [newId]"
    unfolding StartTimer by (simp add: startTimer_store startTimer_entry stopAllTimers_ids)
  then show ?thesis by (metis length_map length_append le_add1 set_append Un_upper1)
next
  case (StopTimer i tEnd tUpd)
  have "map entryId (applyCall items c) = map entryId items"
    unfolding StopTimer by (simp add: stopTimer_ids)
  then show ?thesis by (metis length_map order_refl)
qed

lemma observe_ids:
  "\<forall>s\<in>set (observe items calls). set (map entryId items) \<subseteq> set (map entryId s) \<and> length items \<le> length s"
proof (induction calls arbitrary: items)
  case Nil
  then show ?case by simp
next
  case (Cons c cs)
  from applyCall_ids[of items c] Cons.IH[of "applyCall items c"] show ?case
    by (auto simp del: set_map)
qed

text \<open>
  Claim C2. Take a store whose entries have pairwise distinct identifiers and in which at most
  one entry is running, and any sequence of \<open>startTimer\<close> and \<open>stopTimer\<close> calls in which
  each generated identifier is new. Then after every call at most one entry is running, the
  identifiers are still pairwise distinct and every entry of the first store is still there.
  \<open>stopAllTimers\<close> changes nothing when no entry is running; otherwise it keeps every entry
  and overwrites, in the running one, the end time, the duration in whole seconds, the flag
  and the update time. No entry is running after it, and \<open>startTimer\<close> returns that store
  followed by the new running entry.
\<close>

theorem single_running_invariant:
  assumes "distinct (map entryId items)" and "countRunning items \<le> 1"
    and "freshIds items calls"
  shows "(\<forall>s\<in>set (observe items calls).
            countRunning s \<le> 1 \<and> distinct (map entryId s) \<and>
            set (map entryId items) \<subseteq> set (map entryId s) \<and> length items \<le> length s) \<and>
         stopAllTimers items tEnd tUpd
           = (case findIndex running items of
                None \<Rightarrow> items
              | Some k \<Rightarrow>
                  items[k := stopUpdates tEnd ((tEnd - startTime (items ! k)) div 1000) tUpd (items ! k)]) \<and>
         countRunning (stopAllTimers items tEnd tUpd) = 0 \<and>
         fst (startTimer items tEnd tUpd newId pid tid tgs tStart tCreated tUpdated)
           = stopAllTimers items tEnd tUpd
               @ [snd (startTimer items tEnd tUpd newId pid tid tgs tStart tCreated tUpdated)] \<and>
         snd (startTimer items tEnd tUpd newId pid tid tgs tStart tCreated tUpdated)
           = \<lparr> entryId = newId, projectId = pid, taskId = tid, startTime = tStart,
               endTime = None, duration = 0, tags = tgs, createdAt = tCreated,
               updatedAt = tUpdated, isRunning = Some True \<rparr>"
proof -
  from assms(1,2) have w: "wellFormed items" by (simp add: wellFormed_def)
  from observe_wellFormed[OF w assms(3)] observe_ids[of items calls]
  have "\<forall>s\<in>set (observe items calls).
            countRunning s \<le> 1 \<and> distinct (map entryId s) \<and>
            set (map entryId items) \<subseteq> set (map entryId s) \<and> length items \<le> length s"
    by (simp add: wellFormed_def)
  moreover from assms(2) have "countRunning (stopAllTimers items tEnd tUpd) = 0"
    by (simp add: stopAllTimers_count[OF assms(1)])
  ultimately show ?thesis
    using startTimer_store[of items tEnd tUpd newId pid tid tgs tStart tCreated tUpdated]
      startTimer_entry[of items tEnd tUpd newId pid tid tgs tStart tCreated tUpdated]
      stopAllTimers_eq[OF assms(1), of tEnd tUpd]
    by (intro conjI) assumption+
qed

theorem single_running_invariant_witness:
  "distinct (map entryId demoStore) \<and> countRunning demoStore \<le> 1 \<and> freshIds demoStore demoCalls \<and>
   map (map (\<lambda>e. (entryId e, running e, duration e))) (observe demoStore demoCalls)
     = [[(''e1'', False, 60), (''e2'', False, 10), (''e3'', True, 0)],
        [(''e1'', False, 60), (''e2'', False, 10), (''e3'', False, 15)],
        [(''e1'', False, 60), (''e2'', False, 10), (''e3'', False, 15)],
        [(''e1'', False, 60), (''e2'', False, 10), (''e3'', False, 15), (''e4'', True, 0)]] \<and>
   list_all (\<lambda>s. countRunning s \<le> 1) (observe demoStore demoCalls) \<and>
   findIndex running demoStore = Some 1 \<and>
   stopAllTimers demoStore 80000 80000
     = [demoStore ! 0, stopUpdates 80000 10 80000 (demoStore ! 1)] \<and>
   countRunning (stopAllTimers demoStore 80000 80000) = 0"
proof -
  have d: "distinct (map entryId demoStore)" by (simp add: demoStore_def)
  have c: "countRunning demoStore \<le> 1" by (simp add: demoStore_def countRunning_def running_def)
  have f: "freshIds demoStore demoCalls" by code_simp
  have m: "map (map (\<lambda>e. (entryId e, running e, duration e))) (observe demoStore demoCalls)
     = [[(''e1'', False, 60), (''e2'', False, 10), (''e3'', True, 0)],
        [(''e1'', False, 60), (''e2'', False, 10), (''e3'', False, 15)],
        [(''e1'', False, 60), (''e2'', False, 10), (''e3'', False, 15)],
        [(''e1'', False, 60), (''e2'', False, 10), (''e3'', False, 15), (''e4'', True, 0)]]"
    by code_simp
  have k: "findIndex running demoStore = Some 1" by (simp add: demoStore_def running_def)
  note inv = single_running_invariant[OF d c f,
      of 80000 80000 "''e3''" "''p1''" None "[]" 80001 80001 80001]
  from inv have "\<forall>s\<in>set (observe demoStore demoCalls). countRunning s \<le> 1" by blast
  then have 1: "list_all (\<lambda>s. countRunning s \<le> 1) (observe demoStore demoCalls)"
    by (simp add: list_all_iff)
  from inv have 2: "countRunning (stopAllTimers demoStore 80000 80000) = 0"
    and 3: "stopAllTimers demoStore 80000 80000
           = (case findIndex running demoStore of
                None \<Rightarrow> demoStore
              | Some k \<Rightarrow>
                  demoStore[k := stopUpdates 80000 ((80000 - startTime (demoStore ! k)) div 1000) 80000 (demoStore ! k)])"
    by blast+
  from 3 have 4: "stopAllTimers demoStore 80000 80000
     = [demoStore ! 0, stopUpdates 80000 10 80000 (demoStore ! 1)]"
    unfolding k by (simp add: demoStore_def)
  from d c f m k 1 2 4 show ?thesis by simp
qed

text \<open>
  Claim C3. If the identifier names no entry, or names one that is not running, \<open>stopTimer\<close>
  returns nothing and the store it returns is the store it was given. After a successful stop,
  a second \<open>stopTimer\<close> on the same identifier returns nothing and leaves the store as it is;
  the entry read afterwards is still the one the first stop returned, with the duration the
  first stop gave it.
\<close>

theorem stopTimer_idempotent:
  "((\<forall>e. getById items i = Some e \<longrightarrow> \<not> running e) \<longrightarrow>
      stopTimer items i tEnd tUpd = (items, None)) \<and>
   (stopTimer items i tEnd tUpd = (items', Some e') \<longrightarrow>
      stopTimer items' i tEnd2 tUpd2 = (items', None) \<and>
      getById (fst (stopTimer items' i tEnd2 tUpd2)) i = Some e' \<and>
      duration e' = (tEnd - startTime e') div 1000)"
proof (intro conjI impI)
  assume "\<forall>e. getById items i = Some e \<longrightarrow> \<not> running e"
  then show "stopTimer items i tEnd tUpd = (items, None)"
    by (simp add: stopTimer_def split: option.splits)
next
  assume st: "stopTimer items i tEnd tUpd = (items', Some e')"
  then obtain k where k: "findIndex (\<lambda>item. entryId item = i) items = Some k"
    by (cases "findIndex (\<lambda>item. entryId item = i) items") (simp_all add: stopTimer_eq)
  from findIndex_SomeD[OF k] have kl: "k < length items" and ik: "entryId (items ! k) = i"
    and first: "\<forall>j<k. entryId (items ! j) \<noteq> i" by simp_all
  from st k have rk: "running (items ! k)"
    by (simp add: stopTimer_eq split: if_splits)
  from st k rk have e': "e' = stopUpdates tEnd ((tEnd - startTime (items ! k)) div 1000) tUpd (items ! k)"
    and items': "items' = items[k := e']"
    by (auto simp: stopTimer_eq)
  have "findIndex (\<lambda>item. entryId item = i) items' = Some k"
  proof -
    have "\<exists>x\<in>set items'. entryId x = i"
      using kl ik e' items' by (auto simp: set_conv_nth intro!: exI[of _ k])
    then obtain j where j: "findIndex (\<lambda>item. entryId item = i) items' = Some j"
      using findIndex_None_iff[of "\<lambda>item. entryId item = i" items'] by fastforce
    from findIndex_SomeD[OF j] have jl: "j < length items'" and ij: "entryId (items' ! j) = i"
      and jfirst: "\<forall>m<j. entryId (items' ! m) \<noteq> i" by simp_all
    have "\<not> j < k" using first ij items' kl by (auto simp: nth_list_update)
    moreover have "\<not> k < j" using jfirst items' kl ik e' by (auto simp: nth_list_update)
    ultimately show ?thesis using j by simp
  qed
  moreover have "items' ! k = e'" using items' kl by simp
  moreover have "\<not> running e'" using e' by simp
  ultimately show 1: "stopTimer items' i tEnd2 tUpd2 = (items', None)"
    and "getById (fst (stopTimer items' i tEnd2 tUpd2)) i = Some e'"
    by (simp_all add: stopTimer_eq getById_def findIndex_find)
  show "duration e' = (tEnd - startTime e') div 1000"
    using e' by (simp add: stopUpdates_def)
qed

theorem stopTimer_idempotent_witness:
  "getById demoStore ''e1'' = Some (demoStore ! 0) \<and> \<not> running (demoStore ! 0) \<and>
   stopTimer demoStore ''e1'' 95500 95501 = (demoStore, None) \<and>
   getById demoStore ''zz'' = None \<and>
   stopTimer demoStore ''zz'' 95500 95501 = (demoStore, None) \<and>
   stopTimer demoStore ''e2'' 95500 95501 =
     ([demoStore ! 0, stopUpdates 95500 25 95501 (demoStore ! 1)],
      Some (stopUpdates 95500 25 95501 (demoStore ! 1))) \<and>
   stopTimer [demoStore ! 0, stopUpdates 95500 25 95501 (demoStore ! 1)] ''e2'' 99000 99001 =
     ([demoStore ! 0, stopUpdates 95500 25 95501 (demoStore ! 1)], None) \<and>
   duration (stopUpdates 95500 25 95501 (demoStore ! 1)) = 25"
proof -
  have a: "getById demoStore ''e1'' = Some (demoStore ! 0)" "\<not> running (demoStore ! 0)"
    by (simp_all add: demoStore_def getById_def running_def)
  have b: "getById demoStore ''zz'' = None"
    by (simp add: demoStore_def getById_def)
  have c: "stopTimer demoStore ''e2'' 95500 95501 =
     ([demoStore ! 0, stopUpdates 95500 25 95501 (demoStore ! 1)],
      Some (stopUpdates 95500 25 95501 (demoStore ! 1)))"
    by (simp add: demoStore_def stopTimer_def getById_def running_def update_def)
  from stopTimer_idempotent[of demoStore "''e1''" 95500 95501] a
  have 1: "stopTimer demoStore ''e1'' 95500 95501 = (demoStore, None)" by simp
  from stopTimer_idempotent[of demoStore "''zz''" 95500 95501] b
  have 2: "stopTimer demoStore ''zz'' 95500 95501 = (demoStore, None)" by simp
  from stopTimer_idempotent[of demoStore "''e2''" 95500 95501
      "[demoStore ! 0, stopUpdates 95500 25 95501 (demoStore ! 1)]"
      "stopUpdates 95500 25 95501 (demoStore ! 1)" 99000 99001] c
  have 3: "stopTimer [demoStore ! 0, stopUpdates 95500 25 95501 (demoStore ! 1)] ''e2'' 99000 99001 =
     ([demoStore ! 0, stopUpdates 95500 25 95501 (demoStore ! 1)], None)" by blast
  have 4: "duration (stopUpdates 95500 25 95501 (demoStore ! 1)) = 25"
    by (simp add: stopUpdates_def)
  from a b c 1 2 3 4 show ?thesis by blast
qed

text \<open>
  Claim C4. Start a timer for a project with a new identifier, then stop the returned entry
  at \<open>tEnd\<close>. The entry read back is the one \<open>stopTimer\<close> returned; it is not running, its
  end time is \<open>tEnd\<close>, its duration is the whole seconds between start and end, rounded
  down, and the duration is not negative when the stop time is not earlier than the start time.
\<close>

theorem start_stop_round_trip:
  assumes fresh: "newId \<notin> set (map entryId items)"
    and start: "startTimer items tEnd0 tUpd0 newId pid tid tgs tStart tCreated tUpdated = (items1, entry)"
    and stop: "stopTimer items1 (entryId entry) tEnd tUpd = (items2, r)"
  shows "\<exists>e. getById items2 (entryId entry) = Some e \<and> r = Some e \<and>
             isRunning e = Some False \<and> endTime e = Some tEnd \<and> startTime e = tStart \<and>
             projectId e = pid \<and>
             duration e = (tEnd - tStart) div 1000 \<and>
             (tStart \<le> tEnd \<longrightarrow> 0 \<le> duration e)"
proof -
  let ?s = "stopAllTimers items tEnd0 tUpd0"
  from start have entry: "entry = \<lparr> entryId = newId, projectId = pid, taskId = tid, startTime = tStart,
       endTime = None, duration = 0, tags = tgs, createdAt = tCreated,
       updatedAt = tUpdated, isRunning = Some True \<rparr>"
    using startTimer_entry[of items tEnd0 tUpd0 newId pid tid tgs tStart tCreated tUpdated] by simp
  from start have items1: "items1 = ?s @ [entry]"
    using startTimer_store[of items tEnd0 tUpd0 newId pid tid tgs tStart tCreated tUpdated] by simp
  have d: "\<forall>x\<in>set ?s. entryId x \<noteq> newId"
  proof
    fix x assume "x \<in> set ?s"
    then have "entryId x \<in> set (map entryId ?s)" by simp
    with fresh show "entryId x \<noteq> newId" by (simp only: stopAllTimers_ids) auto
  qed
  have fi: "findIndex (\<lambda>item. entryId item = newId) items1 = Some (length ?s)"
  proof -
    have "\<exists>x\<in>set items1. entryId x = newId" using items1 entry by simp
    then obtain j where j: "findIndex (\<lambda>item. entryId item = newId) items1 = Some j"
      using findIndex_None_iff[of "\<lambda>item. entryId item = newId" items1] by fastforce
    from findIndex_SomeD[OF j] have "j < length items1" "entryId (items1 ! j) = newId" by simp_all
    with d items1 have "j = length ?s"
      by (cases "j < length ?s") (auto simp: nth_append)
    with j show ?thesis by simp
  qed
  let ?e = "stopUpdates tEnd ((tEnd - tStart) div 1000) tUpd entry"
  have id: "entryId entry = newId" using entry by simp
  have nth: "items1 ! length ?s = entry" using items1 by simp
  have run: "running entry" using entry by (simp add: running_def)
  have st: "startTime entry = tStart" using entry by simp
  from stop have r: "r = Some ?e" and items2: "items2 = items1[length ?s := ?e]"
    by (simp_all add: stopTimer_eq id fi nth run st)
  have items2': "items2 = ?s @ [?e]" using items2 items1 by simp
  have "findIndex (\<lambda>item. entryId item = newId) items2 = Some (length ?s)"
  proof -
    have "\<exists>x\<in>set items2. entryId x = newId" using items2' id by simp
    then obtain j where j: "findIndex (\<lambda>item. entryId item = newId) items2 = Some j"
      using findIndex_None_iff[of "\<lambda>item. entryId item = newId" items2] by fastforce
    from findIndex_SomeD[OF j] have "j < length items2" "entryId (items2 ! j) = newId" by simp_all
    with d items2' have "j = length ?s"
      by (cases "j < length ?s") (auto simp: nth_append)
    with j show ?thesis by simp
  qed
  then have g: "getById items2 (entryId entry) = Some ?e"
    using items2' by (simp add: getById_def findIndex_find id)
  have "isRunning ?e = Some False" "endTime ?e = Some tEnd" "startTime ?e = tStart"
    "projectId ?e = pid" "duration ?e = (tEnd - tStart) div 1000"
    using entry by (simp_all add: stopUpdates_def)
  moreover have "tStart \<le> tEnd \<longrightarrow> 0 \<le> duration ?e"
    by (simp add: stopUpdates_def pos_imp_zdiv_nonneg_iff)
  ultimately show ?thesis using g r by blast
qed

theorem start_stop_round_trip_witness:
  "''e3'' \<notin> set (map entryId demoStore) \<and>
   map_option (\<lambda>e. (isRunning e, endTime e, startTime e, duration e))
     (getById
        (fst (stopTimer (fst (startTimer demoStore 80000 80000 ''e3'' ''p1'' None [] 80001 80001 80002))
                ''e3'' 95500 95501))
        ''e3'')
     = Some (Some False, Some 95500, 80001, 15)"
proof -
  have f: "''e3'' \<notin> set (map entryId demoStore)" by (simp add: demoStore_def)
  obtain items1 entry where
    s: "startTimer demoStore 80000 80000 ''e3'' ''p1'' None [] 80001 80001 80002 = (items1, entry)"
    by (cases "startTimer demoStore 80000 80000 ''e3'' ''p1'' None [] 80001 80001 80002")
  obtain items2 r where t: "stopTimer items1 (entryId entry) 95500 95501 = (items2, r)"
    by (cases "stopTimer items1 (entryId entry) 95500 95501")
  from s have i: "entryId entry = ''e3''"
    using startTimer_entry[of demoStore 80000 80000 "''e3''" "''p1''" None "[]" 80001 80001 80002]
    by simp
  from start_stop_round_trip[OF f s t] obtain e where
    "getById items2 ''e3'' = Some e" "isRunning e = Some False" "endTime e = Some 95500"
    "startTime e = 80001" "duration e = 15"
    unfolding i by auto
  with f s t i show ?thesis by simp
qed

text \<open>
  Claim C10. In a store with two or more running entries, \<open>startTimer\<close> leaves at least two
  running entries: it appends the new running entry and changes at most one entry before it,
  the first running entry in storage order. With pairwise distinct identifiers it does stop
  that entry, and so the number of running entries is unchanged.
\<close>

theorem startTimer_corrupted_store:
  assumes two: "2 \<le> countRunning items"
  shows "2 \<le> countRunning (fst (startTimer items tEnd tUpd newId pid tid tgs tStart tCreated tUpdated)) \<and>
         (\<exists>k. findIndex running items = Some k \<and>
              (fst (startTimer items tEnd tUpd newId pid tid tgs tStart tCreated tUpdated)
                 = items @ [snd (startTimer items tEnd tUpd newId pid tid tgs tStart tCreated tUpdated)] \<or>
               fst (startTimer items tEnd tUpd newId pid tid tgs tStart tCreated tUpdated)
                 = items[k := stopUpdates tEnd ((tEnd - startTime (items ! k)) div 1000) tUpd (items ! k)]
                     @ [snd (startTimer items tEnd tUpd newId pid tid tgs tStart tCreated tUpdated)])) \<and>
         (distinct (map entryId items) \<longrightarrow>
            (\<exists>k. findIndex running items = Some k \<and>
                 fst (startTimer items tEnd tUpd newId pid tid tgs tStart tCreated tUpdated) =
                   items[k := stopUpdates tEnd ((tEnd - startTime (items ! k)) div 1000) tUpd (items ! k)]
                     @ [snd (startTimer items tEnd tUpd newId pid tid tgs tStart tCreated tUpdated)]) \<and>
            countRunning (fst (startTimer items tEnd tUpd newId pid tid tgs tStart tCreated tUpdated))
              = countRunning items)"
proof -
  from two have "filter running items \<noteq> []" by (auto simp: countRunning_def)
  then have "\<exists>x\<in>set items. running x" by (simp add: filter_empty_conv)
  then obtain k where k: "findIndex running items = Some k"
    using findIndex_None_iff[of running items] by fastforce
  have 1: "2 \<le> countRunning (fst (startTimer items tEnd tUpd newId pid tid tgs tStart tCreated tUpdated))"
    using stopAllTimers_count_le[of items tEnd tUpd] two by (simp add: startTimer_count)
  have 2: "fst (startTimer items tEnd tUpd newId pid tid tgs tStart tCreated tUpdated)
                 = items @ [snd (startTimer items tEnd tUpd newId pid tid tgs tStart tCreated tUpdated)] \<or>
           fst (startTimer items tEnd tUpd newId pid tid tgs tStart tCreated tUpdated)
                 = items[k := stopUpdates tEnd ((tEnd - startTime (items ! k)) div 1000) tUpd (items ! k)]
                     @ [snd (startTimer items tEnd tUpd newId pid tid tgs tStart tCreated tUpdated)]"
    using stopAllTimers_cases[OF k, of tEnd tUpd] by (auto simp: startTimer_store)
  have 3: "fst (startTimer items tEnd tUpd newId pid tid tgs tStart tCreated tUpdated) =
                   items[k := stopUpdates tEnd ((tEnd - startTime (items ! k)) div 1000) tUpd (items ! k)]
                     @ [snd (startTimer items tEnd tUpd newId pid tid tgs tStart tCreated tUpdated)]"
    if d: "distinct (map entryId items)"
    using k by (simp add: startTimer_store stopAllTimers_eq[OF d])
  have 4: "countRunning (fst (startTimer items tEnd tUpd newId pid tid tgs tStart tCreated tUpdated))
              = countRunning items"
    if d: "distinct (map entryId items)"
    using two by (simp add: startTimer_count stopAllTimers_count[OF d])
  from k 1 2 3 4 show ?thesis by blast
qed

theorem startTimer_corrupted_store_witness:
  "2 \<le> countRunning corruptedStore \<and> distinct (map entryId corruptedStore) \<and>
   countRunning (fst (startTimer corruptedStore 80000 80000 ''e3'' ''p1'' None [] 80001 80001 80002)) = 2 \<and>
   map running (fst (startTimer corruptedStore 80000 80000 ''e3'' ''p1'' None [] 80001 80001 80002))
     = [False, True, True]"
proof -
  have c: "2 \<le> countRunning corruptedStore" by (simp add: corruptedStore_def countRunning_def running_def)
  have d: "distinct (map entryId corruptedStore)" by (simp add: corruptedStore_def)
  have e: "countRunning corruptedStore = 2" by (simp add: corruptedStore_def countRunning_def running_def)
  have fi: "findIndex running corruptedStore = Some 0" by (simp add: corruptedStore_def running_def)
  from startTimer_corrupted_store[OF c, of 80000 80000 "''e3''" "''p1''" None "[]" 80001 80001 80002] d e
  have 1: "countRunning (fst (startTimer corruptedStore 80000 80000 ''e3'' ''p1'' None [] 80001 80001 80002)) = 2"
    and 2: "\<exists>k. findIndex running corruptedStore = Some k \<and>
      fst (startTimer corruptedStore 80000 80000 ''e3'' ''p1'' None [] 80001 80001 80002) =
        corruptedStore[k := stopUpdates 80000 ((80000 - startTime (corruptedStore ! k)) div 1000) 80000 (corruptedStore ! k)]
         @ [snd (startTimer corruptedStore 80000 80000 ''e3'' ''p1'' None [] 80001 80001 80002)]"
    by simp_all
  from 2 fi have "fst (startTimer corruptedStore 80000 80000 ''e3'' ''p1'' None [] 80001 80001 80002) =
        corruptedStore[0 := stopUpdates 80000 ((80000 - startTime (corruptedStore ! 0)) div 1000) 80000 (corruptedStore ! 0)]
         @ [snd (startTimer corruptedStore 80000 80000 ''e3'' ''p1'' None [] 80001 80001 80002)]"
    by simp
  then have "map running (fst (startTimer corruptedStore 80000 80000 ''e3'' ''p1'' None [] 80001 80001 80002))
     = [False, True, True]"
    by (simp add: corruptedStore_def startTimer_entry running_def stopUpdates_def)
  with c d 1 show ?thesis by simp
qed

section \<open>Reports: lemmas\<close>

lemma addTo_Cons:
  "addTo ((k', v') # m) k d = (if k' = k then (k, v' + d) # m else (k', v') # addTo m k d)"
  by (simp add: addTo_def)

lemma addTo_Nil: "addTo [] k d = [(k, d)]"
  by (simp add: addTo_def)

lemma sum_addTo: "sum_list (map snd (addTo m k d)) = sum_list (map snd m) + d"
  by (induction m) (auto simp: addTo_Nil addTo_Cons)

lemma map_of_addTo:
  "map_of (addTo m k d) k' =
     (if k' = k then Some ((case map_of m k of None \<Rightarrow> 0 | Some c \<Rightarrow> c) + d) else map_of m k')"
  by (induction m) (auto simp: addTo_Nil addTo_Cons)

lemma keys_addTo: "fst ` set (addTo m k d) = insert k (fst ` set m)"
proof (induction m)
  case Nil
  then show ?case by (simp add: addTo_Nil)
next
  case (Cons p m)
  obtain k' v' where p: "p = (k', v')" by (cases p)
  show ?case
  proof (cases "k' = k")
    case True
    then show ?thesis unfolding p by (simp add: addTo_Cons)
  next
    case False
    then show ?thesis unfolding p using Cons.IH by (simp add: addTo_Cons insert_commute)
  qed
qed

lemma distinct_addTo: "distinct (map fst m) \<Longrightarrow> distinct (map fst (addTo m k d))"
proof (induction m)
  case Nil
  then show ?case by (simp add: addTo_Nil)
next
  case (Cons p m)
  obtain k' v' where p: "p = (k', v')" by (cases p)
  from Cons show ?case
    using keys_addTo[of m k d] unfolding p by (auto simp: addTo_Cons)
qed

lemma nonneg_addTo:
  "0 \<le> d \<Longrightarrow> \<forall>p\<in>set m. 0 \<le> snd p \<Longrightarrow> \<forall>p\<in>set (addTo m k d). 0 \<le> snd p"
proof (induction m)
  case Nil
  then show ?case by (simp add: addTo_Nil)
next
  case (Cons p m)
  obtain k' v' where p: "p = (k', v')" by (cases p)
  from Cons show ?case unfolding p by (cases "k' = k") (simp_all add: addTo_Cons)
qed

lemma lookup0_addTo: "lookup0 (addTo m k d) k' = lookup0 m k' + (if k' = k then d else 0)"
  by (simp add: lookup0_def map_of_addTo)

subsection \<open>Totals\<close>

lemma foldl_plus_duration:
  "foldl (\<lambda>sum e. sum + duration e) a entries = a + sum_list (map duration entries)"
  by (induction entries arbitrary: a) simp_all

lemma totalSeconds_sum: "totalSeconds entries = sum_list (map duration entries)"
  by (simp add: totalSeconds_def foldl_plus_duration)

lemma sum_projectMap_aux:
  "sum_list (map snd (foldl (\<lambda>m entry. addTo m (projectId entry) (duration entry)) m entries))
     = sum_list (map snd m) + sum_list (map duration entries)"
  by (induction entries arbitrary: m) (simp_all add: sum_addTo)

lemma sum_projectMap: "sum_list (map snd (projectMap entries)) = totalSeconds entries"
  by (simp add: projectMap_def sum_projectMap_aux totalSeconds_sum)

lemma sum_list_sort_key:
  fixes f :: "'a \<Rightarrow> 'b::comm_monoid_add"
  shows "sum_list (map f (sort_key g xs)) = sum_list (map f xs)"
proof -
  have "sum_list (map f (sort_key g xs)) = sum_mset (mset (map f (sort_key g xs)))"
    by (simp only: sum_mset_sum_list)
  also have "\<dots> = sum_mset (mset (map f xs))" by simp
  also have "\<dots> = sum_list (map f xs)" by (simp only: sum_mset_sum_list)
  finally show ?thesis .
qed

lemma sum_hours: "sum_list (map (\<lambda>(k, seconds). (of_int seconds :: rat) / 3600) m)
                   = of_int (sum_list (map snd m)) / 3600"
  by (induction m) (auto simp: add_divide_distrib)

subsection \<open>Tags\<close>

text \<open>What an entry adds to the bucket of tag \<open>t\<close>: its duration, once for every occurrence of
  \<open>t\<close> in its tag list.\<close>

lemma lookup0_tag_inner:
  "lookup0 (foldl (\<lambda>m' tag. addTo m' tag d) m tgs) t = lookup0 m t + int (count_list tgs t) * d"
  by (induction tgs arbitrary: m) (simp_all add: lookup0_addTo algebra_simps)

lemma keys_tag_inner:
  "fst ` set (foldl (\<lambda>m' tag. addTo m' tag d) m tgs) = fst ` set m \<union> set tgs"
  by (induction tgs arbitrary: m) (simp_all add: keys_addTo)

lemma distinct_tag_inner:
  "distinct (map fst m) \<Longrightarrow> distinct (map fst (foldl (\<lambda>m' tag. addTo m' tag d) m tgs))"
  by (induction tgs arbitrary: m) (simp_all add: distinct_addTo)

lemma lookup0_tagMap_aux:
  "lookup0 (foldl (\<lambda>m entry. foldl (\<lambda>m' tag. addTo m' tag (duration entry)) m (tags entry)) m entries) t
     = lookup0 m t + (\<Sum>e\<leftarrow>entries. int (count_list (tags e) t) * duration e)"
  by (induction entries arbitrary: m) (simp_all add: lookup0_tag_inner)

lemma keys_tagMap_aux:
  "fst ` set (foldl (\<lambda>m entry. foldl (\<lambda>m' tag. addTo m' tag (duration entry)) m (tags entry)) m entries)
     = fst ` set m \<union> (\<Union>e\<in>set entries. set (tags e))"
  by (induction entries arbitrary: m) (simp_all add: keys_tag_inner Un_assoc)

lemma distinct_tagMap_aux:
  "distinct (map fst m) \<Longrightarrow>
   distinct (map fst (foldl (\<lambda>m entry. foldl (\<lambda>m' tag. addTo m' tag (duration entry)) m (tags entry)) m entries))"
  by (induction entries arbitrary: m) (simp_all add: distinct_tag_inner)

lemma lookup0_tagMap:
  "lookup0 (tagMap entries) t = (\<Sum>e\<leftarrow>entries. int (count_list (tags e) t) * duration e)"
  by (simp add: tagMap_def lookup0_tagMap_aux) (simp add: lookup0_def)

lemma keys_tagMap: "fst ` set (tagMap entries) = (\<Union>e\<in>set entries. set (tags e))"
  by (simp add: tagMap_def keys_tagMap_aux)

lemma distinct_tagMap: "distinct (map fst (tagMap entries))"
  by (simp add: tagMap_def distinct_tagMap_aux)

lemma count_list_distinct: "distinct xs \<Longrightarrow> count_list xs x = (if x \<in> set xs then 1 else 0)"
  by (induction xs) auto

lemma tag_sum_distinct:
  "\<forall>e\<in>set entries. distinct (tags e) \<Longrightarrow>
   (\<Sum>e\<leftarrow>entries. int (count_list (tags e) t) * duration e)
     = sum_list (map duration (filter (\<lambda>e. t \<in> set (tags e)) entries))"
  by (induction entries) (simp_all add: count_list_distinct)

lemma map_of_lookup0:
  "k \<in> fst ` set m \<Longrightarrow> map_of m k = Some (lookup0 m k)"
  by (cases "map_of m k") (auto simp: lookup0_def map_of_eq_None_iff)

lemma report_fields:
  "startDate (generateReport items projects per start end) = start"
  "endDate (generateReport items projects per start end) = end"
  "totalHours (generateReport items projects per start end)
     = of_int (totalSeconds (getEntriesByDateRange items start end)) / 3600"
  "projectBreakdown (generateReport items projects per start end)
     = sort_key (\<lambda>x. - pb_hours x)
         (map (\<lambda>(pid, seconds).
                 \<lparr> pb_projectId = pid,
                   pb_projectName = projectNameOf projects pid,
                   pb_hours = of_int seconds / 3600,
                   pb_percentage = js_times (js_div (of_int seconds)
                      (of_int (totalSeconds (getEntriesByDateRange items start end)))) 100 \<rparr>)
              (projectMap (getEntriesByDateRange items start end)))"
  "tagBreakdown (generateReport items projects per start end)
     = sort_key (\<lambda>x. - tb_hours x)
         (map (\<lambda>(tag, seconds).
                 \<lparr> tb_tag = tag,
                   tb_hours = of_int seconds / 3600,
                   tb_percentage = js_times (js_div (of_int seconds)
                      (of_int (totalSeconds (getEntriesByDateRange items start end)))) 100 \<rparr>)
              (tagMap (getEntriesByDateRange items start end)))"
  by (simp_all add: generateReport_def Let_def)

subsection \<open>Percentages\<close>

lemma nonneg_group_aux:
  "\<forall>e\<in>set entries. 0 \<le> duration e \<Longrightarrow> \<forall>p\<in>set m. 0 \<le> snd p \<Longrightarrow>
   \<forall>p\<in>set (foldl (\<lambda>m entry. addTo m (key entry) (duration entry)) m entries). 0 \<le> snd p"
proof (induction entries arbitrary: m)
  case Nil
  then show ?case by simp
next
  case (Cons e entries)
  from Cons.prems have "\<forall>p\<in>set (addTo m (key e) (duration e)). 0 \<le> snd p"
    by (intro nonneg_addTo) simp_all
  with Cons.prems(1) Cons.IH show ?case by simp
qed

lemma nonneg_projectMap:
  "\<forall>e\<in>set entries. 0 \<le> duration e \<Longrightarrow> \<forall>p\<in>set (projectMap entries). 0 \<le> snd p"
  unfolding projectMap_def by (rule nonneg_group_aux) simp_all

lemma elem_le_sum_list_int:
  "\<forall>x\<in>set xs. (0::int) \<le> x \<Longrightarrow> y \<in> set xs \<Longrightarrow> y \<le> sum_list xs"
proof (induction xs)
  case Nil
  then show ?case by simp
next
  case (Cons x xs)
  from Cons.prems(1) have "0 \<le> sum_list xs" by (intro sum_list_nonneg) simp
  with Cons show ?case by auto
qed

lemma projectMap_bounds:
  assumes "\<forall>e\<in>set entries. 0 \<le> duration e" and "(k, s) \<in> set (projectMap entries)"
  shows "0 \<le> s \<and> s \<le> totalSeconds entries"
proof -
  from nonneg_projectMap[OF assms(1)] have nn: "\<forall>x\<in>set (map snd (projectMap entries)). 0 \<le> x"
    by simp
  from assms(2) have "s \<in> set (map snd (projectMap entries))" by force
  from elem_le_sum_list_int[OF nn this] nn this show ?thesis
    by (auto simp: sum_projectMap)
qed

lemma sum_filter_le_int:
  "\<forall>e\<in>set entries. 0 \<le> duration e \<Longrightarrow>
   0 \<le> sum_list (map duration (filter P entries)) \<and>
   sum_list (map duration (filter P entries)) \<le> sum_list (map duration entries)"
  by (induction entries) auto

lemma tagMap_bounds:
  assumes "\<forall>e\<in>set entries. 0 \<le> duration e" and "(t, s) \<in> set (tagMap entries)"
  shows "0 \<le> s" and "(\<forall>e\<in>set entries. distinct (tags e)) \<Longrightarrow> s \<le> totalSeconds entries"
proof -
  from assms(2) have k: "t \<in> fst ` set (tagMap entries)" by force
  from assms(2) have "map_of (tagMap entries) t = Some s"
    using distinct_tagMap[of entries] by simp
  with map_of_lookup0[OF k] have s: "s = (\<Sum>e\<leftarrow>entries. int (count_list (tags e) t) * duration e)"
    by (simp add: lookup0_tagMap)
  show "0 \<le> s" unfolding s using assms(1) by (intro sum_list_nonneg) auto
  assume d: "\<forall>e\<in>set entries. distinct (tags e)"
  show "s \<le> totalSeconds entries"
    unfolding s tag_sum_distinct[OF d] totalSeconds_sum
    using sum_filter_le_int[OF assms(1)] by simp
qed

lemma percentage_Num:
  assumes "0 \<le> s" "0 < tot"
  shows "js_times (js_div (of_int s) (of_int tot)) 100 = Num (of_int s / of_int tot * 100) \<and>
         (0::rat) \<le> of_int s / of_int tot * 100 \<and>
         (s \<le> tot \<longrightarrow> (of_int s / of_int tot * 100 :: rat) \<le> 100)"
proof -
  have t: "(0::rat) < of_int tot" using assms(2) by simp
  have "s \<le> tot \<Longrightarrow> (of_int s / of_int tot * 100 :: rat) \<le> 100"
  proof -
    assume "s \<le> tot"
    then have "(of_int s :: rat) \<le> of_int tot" by simp
    then have "(of_int s / of_int tot :: rat) \<le> 1" using t by (simp add: divide_le_eq)
    then have "(of_int s / of_int tot :: rat) * 100 \<le> 1 * 100"
      by (intro mult_right_mono) simp_all
    then show ?thesis by simp
  qed
  moreover have "(0::rat) \<le> of_int s / of_int tot * 100" using assms t by simp
  moreover have "js_times (js_div (of_int s) (of_int tot)) 100 = Num (of_int s / of_int tot * 100)"
    using t by (simp add: js_div_def js_times_def)
  ultimately show ?thesis by blast
qed

subsection \<open>Dates\<close>

lemma msPerDay_pos: "0 < msPerDay"
  by (simp add: msPerDay_def)

lemma localDay_shift: "(q * msPerDay + c - tz + tz) div msPerDay = q + c div msPerDay"
proof -
  have ne: "msPerDay \<noteq> 0" using msPerDay_pos by simp
  have eq: "q * msPerDay + c - tz + tz = c + q * msPerDay" by simp
  show ?thesis unfolding eq using ne by (rule div_mult_self1)
qed

lemma setHours_localDay:
  assumes "0 \<le> c" "c < msPerDay" "c = ((h * 60 + m) * 60 + s) * 1000 + ms"
  shows "(setHours tz t h m s ms + tz) div msPerDay = (t + tz) div msPerDay"
proof -
  have "setHours tz t h m s ms = ((t + tz) div msPerDay) * msPerDay + c - tz"
    using assms(3) by (simp add: setHours_def)
  then have "(setHours tz t h m s ms + tz) div msPerDay = (t + tz) div msPerDay + c div msPerDay"
    by (simp only: localDay_shift)
  with assms(1,2) show ?thesis by simp
qed

lemma addDays_localDay: "(addDays t k + tz) div msPerDay = (t + tz) div msPerDay + k"
proof -
  have ne: "msPerDay \<noteq> 0" using msPerDay_pos by simp
  have eq: "addDays t k + tz = (t + tz) + k * msPerDay" by (simp add: addDays_def)
  have "((t + tz) + k * msPerDay) div msPerDay = k + (t + tz) div msPerDay"
    using ne by (rule div_mult_self1)
  then show ?thesis unfolding eq by (simp only: add.commute)
qed

lemma week_bounds:
  "startDate (generateWeekReport tz items projects date)
     = ((date + tz) div msPerDay
          - (if getDay tz date = 0 then 6 else getDay tz date - 1)) * msPerDay - tz"
  "endDate (generateWeekReport tz items projects date)
     = startDate (generateWeekReport tz items projects date) + 7 * msPerDay - 1"
proof -
  let ?diff = "if getDay tz date = 0 then 6 else getDay tz date - 1"
  have s: "startDate (generateWeekReport tz items projects date)
             = setHours tz (addDays date (- ?diff)) 0 0 0 0"
    by (simp add: generateWeekReport_def Let_def generateReport_def)
  then show 1: "startDate (generateWeekReport tz items projects date)
     = ((date + tz) div msPerDay - ?diff) * msPerDay - tz"
    by (simp only: setHours_def addDays_localDay) simp
  have e: "endDate (generateWeekReport tz items projects date)
             = setHours tz (addDays (startDate (generateWeekReport tz items projects date)) 6) 23 59 59 999"
    by (simp add: generateWeekReport_def Let_def generateReport_def)
  have "(startDate (generateWeekReport tz items projects date) + tz) div msPerDay
          = (date + tz) div msPerDay - ?diff"
    unfolding s using setHours_localDay[of 0 0 0 0 0 tz "addDays date (- ?diff)"] msPerDay_pos
    by (simp add: addDays_localDay)
  then have "endDate (generateWeekReport tz items projects date)
          = ((date + tz) div msPerDay - ?diff + 6) * msPerDay + 86399999 - tz"
    unfolding e by (simp only: setHours_def addDays_localDay) simp
  with 1 show "endDate (generateWeekReport tz items projects date)
     = startDate (generateWeekReport tz items projects date) + 7 * msPerDay - 1"
    by (simp add: msPerDay_def algebra_simps)
qed

lemma weekday_shift:
  fixes q :: int
  shows "(q - (if (q + 4) mod 7 = 0 then 6 else (q + 4) mod 7 - 1) + 4) mod 7 = 1"
    and "(q - (if (q + 4) mod 7 = 0 then 6 else (q + 4) mod 7 - 1) + 6 + 4) mod 7 = 0"
proof -
  define k where "k = (q + 4) div 7"
  define w where "w = (q + 4) mod 7"
  have q: "q = 7 * k + w - 4" unfolding k_def w_def by simp
  have a: "(7 * (k - 1) + 1) mod 7 = (1::int)" "(7 * k + 1) mod 7 = (1::int)"
    "(7 * k) mod 7 = (0::int)" "(7 * (k + 1)) mod 7 = (0::int)"
    using mod_mult_self2[of 1 7 "k - 1"] mod_mult_self2[of 1 7 k] mod_mult_self2[of 0 7 "k + 1"]
    by (simp_all add: add.commute)
  show "(q - (if (q + 4) mod 7 = 0 then 6 else (q + 4) mod 7 - 1) + 4) mod 7 = 1"
  proof (cases "w = 0")
    case True
    have "q - 6 + 4 = 7 * (k - 1) + 1" using q True by simp
    then have "(q - 6 + 4) mod 7 = 1" by (simp only: a(1))
    with True show ?thesis unfolding w_def by simp
  next
    case False
    have "q - (w - 1) + 4 = 7 * k + 1" using q by simp
    then have "(q - (w - 1) + 4) mod 7 = 1" by (simp only: a(2))
    with False show ?thesis unfolding w_def by simp
  qed
  show "(q - (if (q + 4) mod 7 = 0 then 6 else (q + 4) mod 7 - 1) + 6 + 4) mod 7 = 0"
  proof (cases "w = 0")
    case True
    have "q - 6 + 6 + 4 = 7 * k" using q True by simp
    then have "(q - 6 + 6 + 4) mod 7 = 0" by (simp only: a(3))
    with True show ?thesis unfolding w_def by simp
  next
    case False
    have "q - (w - 1) + 6 + 4 = 7 * (k + 1)" using q by simp
    then have "(q - (w - 1) + 6 + 4) mod 7 = 0" by (simp only: a(4))
    with False show ?thesis unfolding w_def by simp
  qed
qed

subsection \<open>Heatmap\<close>




























section \<open>Reports: claims\<close>

text \<open>
  Claim C1, as the code has it. An empty entry set gives two empty breakdown lists. When the
  durations are not negative and their total is positive, every percentage of the project
  breakdown is a number between 0 and 100, and every percentage of the tag breakdown is a
  number that is at least 0, and at most 100 when no entry lists the same tag twice.
\<close>

theorem percentage_bounds:
  "(getEntriesByDateRange items start end = [] \<longrightarrow>
      projectBreakdown (generateReport items projects per start end) = [] \<and>
      tagBreakdown (generateReport items projects per start end) = []) \<and>
   ((\<forall>e\<in>set (getEntriesByDateRange items start end). 0 \<le> duration e) \<and>
    0 < totalSeconds (getEntriesByDateRange items start end) \<longrightarrow>
      (\<forall>p\<in>set (projectBreakdown (generateReport items projects per start end)).
         \<exists>q. pb_percentage p = Num q \<and> 0 \<le> q \<and> q \<le> 100) \<and>
      (\<forall>t\<in>set (tagBreakdown (generateReport items projects per start end)).
         \<exists>q. tb_percentage t = Num q \<and> 0 \<le> q \<and>
             ((\<forall>e\<in>set (getEntriesByDateRange items start end). distinct (tags e)) \<longrightarrow> q \<le> 100)))"
proof (intro conjI impI ballI)
  let ?entries = "getEntriesByDateRange items start end"
  assume "?entries = []"
  then show "projectBreakdown (generateReport items projects per start end) = []"
    and "tagBreakdown (generateReport items projects per start end) = []"
    by (simp_all add: report_fields projectMap_def tagMap_def)
next
  let ?entries = "getEntriesByDateRange items start end"
  fix p
  assume a: "(\<forall>e\<in>set ?entries. 0 \<le> duration e) \<and> 0 < totalSeconds ?entries"
    and "p \<in> set (projectBreakdown (generateReport items projects per start end))"
  then obtain k s where ks: "(k, s) \<in> set (projectMap ?entries)"
    and p: "pb_percentage p = js_times (js_div (of_int s) (of_int (totalSeconds ?entries))) 100"
    by (auto simp: report_fields(4))
  from projectMap_bounds[OF _ ks] a have "0 \<le> s" "s \<le> totalSeconds ?entries" by simp_all
  with percentage_Num[of s "totalSeconds ?entries"] a p
  show "\<exists>q. pb_percentage p = Num q \<and> 0 \<le> q \<and> q \<le> 100" by simp
next
  let ?entries = "getEntriesByDateRange items start end"
  fix t
  assume a: "(\<forall>e\<in>set ?entries. 0 \<le> duration e) \<and> 0 < totalSeconds ?entries"
    and "t \<in> set (tagBreakdown (generateReport items projects per start end))"
  then obtain k s where ks: "(k, s) \<in> set (tagMap ?entries)"
    and p: "tb_percentage t = js_times (js_div (of_int s) (of_int (totalSeconds ?entries))) 100"
    by (auto simp: report_fields(5))
  from a have nn: "\<forall>e\<in>set ?entries. 0 \<le> duration e" by simp
  from tagMap_bounds[OF nn ks] have s0: "0 \<le> s"
    and s1: "(\<forall>e\<in>set ?entries. distinct (tags e)) \<Longrightarrow> s \<le> totalSeconds ?entries"
    by simp_all
  from percentage_Num[of s "totalSeconds ?entries"] a s0 s1 p
  show "\<exists>q. tb_percentage t = Num q \<and> 0 \<le> q \<and>
             ((\<forall>e\<in>set ?entries. distinct (tags e)) \<longrightarrow> q \<le> 100)"
    by auto
qed

theorem percentage_bounds_witness:
  "list_all (\<lambda>e. 0 \<le> duration e) (getEntriesByDateRange tagStore 0 86399999) \<and>
   list_all (\<lambda>e. distinct (tags e)) (getEntriesByDateRange tagStore 0 86399999) \<and>
   0 < totalSeconds (getEntriesByDateRange tagStore 0 86399999) \<and>
   list_all (\<lambda>p. \<exists>q. pb_percentage p = Num q \<and> 0 \<le> q \<and> q \<le> 100)
     (projectBreakdown (generateReport tagStore [] Day 0 86399999)) \<and>
   list_all (\<lambda>t. \<exists>q. tb_percentage t = Num q \<and> 0 \<le> q \<and> q \<le> 100)
     (tagBreakdown (generateReport tagStore [] Day 0 86399999)) \<and>
   map pb_percentage (projectBreakdown (generateReport tagStore [] Day 0 86399999))
     = [Num (200 / 3), Num (100 / 3)] \<and>
   map tb_percentage (tagBreakdown (generateReport tagStore [] Day 0 86399999))
     = [Num 100, Num (200 / 3)] \<and>
   getEntriesByDateRange [] 0 86399999 = [] \<and>
   projectBreakdown (generateReport [] [] Day 0 86399999) = [] \<and>
   tagBreakdown (generateReport [] [] Day 0 86399999) = []"
proof -
  have e: "getEntriesByDateRange tagStore 0 86399999 = tagStore"
    by (simp add: getEntriesByDateRange_def tagStore_def loggedEntry_def)
  have n: "\<forall>e\<in>set (getEntriesByDateRange tagStore 0 86399999). 0 \<le> duration e"
    unfolding e by (simp add: tagStore_def loggedEntry_def)
  have d: "\<forall>e\<in>set (getEntriesByDateRange tagStore 0 86399999). distinct (tags e)"
    unfolding e by (simp add: tagStore_def loggedEntry_def)
  have t: "0 < totalSeconds (getEntriesByDateRange tagStore 0 86399999)"
    unfolding e by (simp add: tagStore_def loggedEntry_def totalSeconds_def)
  have z: "getEntriesByDateRange [] 0 86399999 = []"
    by (simp add: getEntriesByDateRange_def)
  from percentage_bounds[of tagStore 0 86399999 "[]" Day] n d t
  have 1: "list_all (\<lambda>p. \<exists>q. pb_percentage p = Num q \<and> 0 \<le> q \<and> q \<le> 100)
     (projectBreakdown (generateReport tagStore [] Day 0 86399999))"
    and 2: "list_all (\<lambda>t. \<exists>q. tb_percentage t = Num q \<and> 0 \<le> q \<and> q \<le> 100)
     (tagBreakdown (generateReport tagStore [] Day 0 86399999))"
    unfolding list_all_iff by blast+
  from percentage_bounds[of "[]" 0 86399999 "[]" Day] z
  have 3: "projectBreakdown (generateReport [] [] Day 0 86399999) = []"
    and 4: "tagBreakdown (generateReport [] [] Day 0 86399999) = []"
    by blast+
  have 5: "map pb_percentage (projectBreakdown (generateReport tagStore [] Day 0 86399999))
     = [Num (200 / 3), Num (100 / 3)]"
    by (simp add: tagStore_def loggedEntry_def generateReport_def getEntriesByDateRange_def
        totalSeconds_def projectMap_def addTo_def projectNameOf_def js_div_def js_times_def Let_def)
  have 6: "map tb_percentage (tagBreakdown (generateReport tagStore [] Day 0 86399999))
     = [Num 100, Num (200 / 3)]"
    by (simp add: tagStore_def loggedEntry_def generateReport_def getEntriesByDateRange_def
        totalSeconds_def tagMap_def addTo_def js_div_def js_times_def Let_def)
  from n d t 1 2 3 4 5 6 z show ?thesis by (simp add: list_all_iff)
qed

text \<open>
  The claim as stated fails at two inputs. A window that holds one entry of duration 0 (a
  timer that was just started) has total 0; both breakdowns are non-empty and their
  percentage is \<open>0 / 0\<close>, that is \<open>NaN\<close>. An entry that lists a tag twice adds its duration
  twice to the bucket of the tag, whose percentage is then 200.
\<close>

theorem percentage_counterexample:
  "totalSeconds (getEntriesByDateRange zeroStore 0 86399999) = 0 \<and>
   map (\<lambda>p. (pb_projectId p, pb_hours p, pb_percentage p))
     (projectBreakdown (generateReport zeroStore [] Day 0 86399999)) = [(''p1'', 0, NaN)] \<and>
   map (\<lambda>t. (tb_tag t, tb_hours t, tb_percentage t))
     (tagBreakdown (generateReport zeroStore [] Day 0 86399999)) = [(''a'', 0, NaN)] \<and>
   map (\<lambda>t. (tb_tag t, tb_hours t, tb_percentage t))
     (tagBreakdown (generateReport dupTagStore [] Day 0 86399999)) = [(''a'', 2, Num 200)]"
  by (simp add: zeroStore_def dupTagStore_def loggedEntry_def startTimer_def stopAllTimers_def
      getRunningEntry_def create_def generateReport_def getEntriesByDateRange_def totalSeconds_def
      projectMap_def tagMap_def addTo_def projectNameOf_def js_div_def js_times_def Let_def)

text \<open>
  Claim C5, at an input where it fails, and at the two inputs the claim names. Today is
  3 January 2024 and the time zone is UTC. With a single entry on 1 January the longest run of
  dates has length 1, and \<open>calculateStreak\<close> returns 0 for it: the second loop starts its
  maximum at 0 and raises it only when two neighbouring dates are one day apart. With entries
  on all three days the result is (3, 3), and with 1 and 3 January only it is (1, 1). One hour
  east of UTC the date string of local midnight is the day before, and the three days give
  (2, 3).
\<close>

theorem calculateStreak_examples:
  "calculateStreak 0 [jan1] 1704283200000 = (0, 0) \<and>
   calculateStreak 0 [jan1, jan2, jan3] 1704283200000 = (3, 3) \<and>
   calculateStreak 0 [jan1, jan3] 1704283200000 = (1, 1) \<and>
   calculateStreak 3600000 [jan1, jan2, jan3] 1704283200000 = (2, 3)"
  by code_simp




text \<open>
  Claim C7, as the code has it. The tag map has one bucket for every tag carried by some
  entry. The seconds in the bucket of a tag are the sum, over the entries, of the duration
  times the number of occurrences of the tag in the entry's tag list; when no entry lists a
  tag twice, that is the sum of the durations of the entries whose tag list contains the tag.
  The tag breakdown of the report lists these buckets in hours, by descending hours.
\<close>

theorem tag_breakdown_fan_out:
  "fst ` set (tagMap entries) = (\<Union>e\<in>set entries. set (tags e)) \<and>
   distinct (map fst (tagMap entries)) \<and>
   (\<forall>t\<in>fst ` set (tagMap entries).
      map_of (tagMap entries) t = Some (\<Sum>e\<leftarrow>entries. int (count_list (tags e) t) * duration e)) \<and>
   ((\<forall>e\<in>set entries. distinct (tags e)) \<longrightarrow>
      (\<forall>t\<in>fst ` set (tagMap entries).
         map_of (tagMap entries) t
           = Some (sum_list (map duration (filter (\<lambda>e. t \<in> set (tags e)) entries))))) \<and>
   map (\<lambda>x. (tb_tag x, tb_hours x)) (tagBreakdown (generateReport items projects per start end))
     = sort_key (\<lambda>p. - snd p)
         (map (\<lambda>(tag, seconds). (tag, of_int seconds / 3600))
            (tagMap (getEntriesByDateRange items start end)))"
proof (intro conjI impI ballI)
  show "fst ` set (tagMap entries) = (\<Union>e\<in>set entries. set (tags e))"
    by (rule keys_tagMap)
  show "distinct (map fst (tagMap entries))"
    by (rule distinct_tagMap)
next
  fix t assume "t \<in> fst ` set (tagMap entries)"
  then show "map_of (tagMap entries) t = Some (\<Sum>e\<leftarrow>entries. int (count_list (tags e) t) * duration e)"
    by (simp only: map_of_lookup0 lookup0_tagMap)
next
  fix t assume d: "\<forall>e\<in>set entries. distinct (tags e)" and "t \<in> fst ` set (tagMap entries)"
  then show "map_of (tagMap entries) t
           = Some (sum_list (map duration (filter (\<lambda>e. t \<in> set (tags e)) entries)))"
    by (simp only: map_of_lookup0 lookup0_tagMap tag_sum_distinct[OF d])
next
  have "map (\<lambda>x. (tb_tag x, tb_hours x)) (sort_key (\<lambda>x. - tb_hours x) xs)
          = sort_key (\<lambda>p. - snd p) (map (\<lambda>x. (tb_tag x, tb_hours x)) xs)" for xs :: "TagShare list"
  proof (induction xs)
    case Nil
    then show ?case by simp
  next
    case (Cons x xs)
    have ins: "map (\<lambda>x. (tb_tag x, tb_hours x)) (insort_key (\<lambda>x. - tb_hours x) x ys)
      = insort_key (\<lambda>p. - snd p) (tb_tag x, tb_hours x) (map (\<lambda>x. (tb_tag x, tb_hours x)) ys)" for ys
      by (induction ys) simp_all
    from Cons show ?case by (simp add: ins)
  qed
  then show "map (\<lambda>x. (tb_tag x, tb_hours x)) (tagBreakdown (generateReport items projects per start end))
     = sort_key (\<lambda>p. - snd p)
         (map (\<lambda>(tag, seconds). (tag, of_int seconds / 3600))
            (tagMap (getEntriesByDateRange items start end)))"
    by (simp add: report_fields(5) comp_def case_prod_unfold)
qed

theorem tag_breakdown_fan_out_witness:
  "list_all (\<lambda>e. distinct (tags e)) tagStore \<and>
   tagMap tagStore = [(''x'', 5400), (''y'', 3600)] \<and>
   map_of (tagMap tagStore) ''x''
     = Some (sum_list (map duration (filter (\<lambda>e. ''x'' \<in> set (tags e)) tagStore))) \<and>
   map_of (tagMap tagStore) ''y''
     = Some (sum_list (map duration (filter (\<lambda>e. ''y'' \<in> set (tags e)) tagStore))) \<and>
   map (\<lambda>t. (tb_tag t, tb_hours t, tb_percentage t))
     (tagBreakdown (generateReport tagStore [] Day 0 86399999))
     = [(''x'', 3 / 2, Num 100), (''y'', 1, Num (200 / 3))]"
proof -
  have d: "\<forall>e\<in>set tagStore. distinct (tags e)"
    by (simp add: tagStore_def loggedEntry_def)
  have m: "tagMap tagStore = [(''x'', 5400), (''y'', 3600)]"
    by (simp add: tagStore_def loggedEntry_def tagMap_def addTo_def)
  have k: "''x'' \<in> fst ` set (tagMap tagStore)" "''y'' \<in> fst ` set (tagMap tagStore)"
    by (simp_all add: m)
  from tag_breakdown_fan_out[of tagStore] d k
  have 1: "map_of (tagMap tagStore) ''x''
     = Some (sum_list (map duration (filter (\<lambda>e. ''x'' \<in> set (tags e)) tagStore)))"
    and 2: "map_of (tagMap tagStore) ''y''
     = Some (sum_list (map duration (filter (\<lambda>e. ''y'' \<in> set (tags e)) tagStore)))"
    by blast+
  have r: "map (\<lambda>t. (tb_tag t, tb_hours t, tb_percentage t))
     (tagBreakdown (generateReport tagStore [] Day 0 86399999))
     = [(''x'', 3 / 2, Num 100), (''y'', 1, Num (200 / 3))]"
    by (simp add: report_fields(5) getEntriesByDateRange_def totalSeconds_def
        js_div_def js_times_def m[unfolded tagStore_def] tagStore_def)
       (simp add: loggedEntry_def)
  from d m 1 2 r show ?thesis by (simp add: list_all_iff)
qed

text \<open>
  The claim as stated fails for an entry that lists a tag twice: the bucket holds twice the
  duration of the only entry that carries the tag.
\<close>

theorem tag_breakdown_counterexample:
  "tagMap dupTagStore = [(''a'', 7200)] \<and>
   sum_list (map duration (filter (\<lambda>e. ''a'' \<in> set (tags e)) dupTagStore)) = 3600 \<and>
   map (\<lambda>t. (tb_tag t, tb_hours t)) (tagBreakdown (generateReport dupTagStore [] Day 0 86399999))
     = [(''a'', 2)]"
  by (simp add: dupTagStore_def loggedEntry_def generateReport_def getEntriesByDateRange_def
      tagMap_def addTo_def Let_def)

text \<open>
  Claim C8. The hours of the project breakdown add up to \<open>totalHours\<close>, which is the sum of
  the durations of the entries in the window divided by 3600 (in exact arithmetic).
\<close>

theorem project_breakdown_conservation:
  "sum_list (map pb_hours (projectBreakdown (generateReport items projects per start end)))
     = totalHours (generateReport items projects per start end) \<and>
   totalHours (generateReport items projects per start end)
     = of_int (sum_list (map duration (getEntriesByDateRange items start end))) / 3600"
proof -
  let ?entries = "getEntriesByDateRange items start end"
  have "sum_list (map pb_hours (projectBreakdown (generateReport items projects per start end)))
          = sum_list (map (\<lambda>(k, seconds). (of_int seconds :: rat) / 3600) (projectMap ?entries))"
    by (simp add: report_fields(4) sum_list_sort_key comp_def case_prod_unfold)
  also have "\<dots> = of_int (totalSeconds ?entries) / 3600"
    by (simp only: sum_hours sum_projectMap)
  finally show ?thesis
    by (simp add: report_fields(3) totalSeconds_sum)
qed

text \<open>
  Claim C9. For every date and time zone offset, the week report's window starts on a Monday
  at local midnight, not after the date and less than seven days before it; a Sunday counts as
  the seventh day of the week that began six days earlier. The window ends one millisecond
  before the next Monday, on Sunday at 23:59:59.999 local time. For Wednesday 3 January 2024,
  12:00 UTC, the window runs from 1 January 00:00:00.000 to 7 January 23:59:59.999.
\<close>

theorem week_window:
  fixes tz date :: int and items :: store and projects :: "Project list"
  defines "r \<equiv> generateWeekReport tz items projects date"
  shows "period r = Week \<and>
         getDay tz (startDate r) = 1 \<and>
         setHours tz (startDate r) 0 0 0 0 = startDate r \<and>
         startDate r \<le> date \<and> date < startDate r + 7 * msPerDay \<and>
         (startDate r + tz) div msPerDay
           = (date + tz) div msPerDay - (if getDay tz date = 0 then 6 else getDay tz date - 1) \<and>
         endDate r = startDate r + 7 * msPerDay - 1 \<and>
         getDay tz (endDate r) = 0 \<and>
         setHours tz (endDate r) 23 59 59 999 = endDate r \<and>
         date \<le> endDate r \<and>
         startDate (generateWeekReport 0 items projects 1704283200000) = 1704067200000 \<and>
         endDate (generateWeekReport 0 items projects 1704283200000) = 1704671999999"
proof -
  define q where "q = (date + tz) div msPerDay"
  define w where "w = getDay tz date"
  define diff where "diff = (if w = 0 then 6 else w - 1)"
  have w: "w = (q + 4) mod 7" by (simp add: w_def q_def getDay_def)
  then have wr: "0 \<le> w" "w < 7" by simp_all
  then have dr: "0 \<le> diff" "diff \<le> 6" by (simp_all add: diff_def)
  have s: "startDate r = (q - diff) * msPerDay - tz"
    unfolding r_def q_def diff_def w_def by (rule week_bounds(1))
  have e: "endDate r = startDate r + 7 * msPerDay - 1"
    unfolding r_def by (rule week_bounds(2))
  have sd: "(startDate r + tz) div msPerDay = q - diff"
    unfolding s using localDay_shift[of "q - diff" 0 tz] by simp
  have ed: "(endDate r + tz) div msPerDay = q - diff + 6"
  proof -
    have "endDate r = (q - diff + 6) * msPerDay + 86399999 - tz"
      unfolding e s by (simp add: msPerDay_def algebra_simps)
    then have "(endDate r + tz) div msPerDay = q - diff + 6 + 86399999 div msPerDay"
      by (simp only: localDay_shift)
    then show ?thesis by (simp add: msPerDay_def)
  qed
  have md: "0 \<le> (date + tz) mod msPerDay" "(date + tz) mod msPerDay < msPerDay"
    using msPerDay_pos by simp_all
  have dm: "date + tz = q * msPerDay + (date + tz) mod msPerDay"
    unfolding q_def by simp
  have lo: "q * msPerDay \<le> date + tz"
    using md(1) dm by linarith
  have hi: "date + tz < q * msPerDay + msPerDay"
    using md(2) dm by linarith
  have 1: "period r = Week"
    by (simp add: r_def generateWeekReport_def Let_def generateReport_def)
  have 2: "getDay tz (startDate r) = 1"
    unfolding getDay_def sd diff_def w using weekday_shift(1)[of q] by simp
  have 3: "setHours tz (startDate r) 0 0 0 0 = startDate r"
    unfolding setHours_def sd by (simp add: s)
  have 4: "startDate r \<le> date"
    using lo dr(1) unfolding s msPerDay_def by (simp add: algebra_simps)
  have 5: "date < startDate r + 7 * msPerDay"
    using hi dr(2) unfolding s msPerDay_def by (simp add: algebra_simps)
  have 6: "(startDate r + tz) div msPerDay
           = (date + tz) div msPerDay - (if getDay tz date = 0 then 6 else getDay tz date - 1)"
    using sd unfolding q_def diff_def w_def .
  have 8: "getDay tz (endDate r) = 0"
    unfolding getDay_def ed diff_def w using weekday_shift(2)[of q] by simp
  have 9: "setHours tz (endDate r) 23 59 59 999 = endDate r"
    unfolding setHours_def ed unfolding e s by (simp add: msPerDay_def algebra_simps)
  have 10: "date \<le> endDate r"
    using 5 unfolding e by simp
  have 11: "startDate (generateWeekReport 0 items projects 1704283200000) = 1704067200000"
    by (simp add: week_bounds(1) getDay_def msPerDay_def)
  have 12: "endDate (generateWeekReport 0 items projects 1704283200000) = 1704671999999"
    by (simp add: week_bounds getDay_def msPerDay_def)
  from 1 2 3 4 5 6 e 8 9 10 11 12 show ?thesis by blast
qed

end
